theory Spec2Isabelle
  imports Main
begin

section \<open>Data model\<close>

text \<open>
  The administration core of pgshovel works on three kinds of state: the configuration
  of a replication set (a protobuf message), the schema objects of each PostgreSQL
  instance, and the cluster data kept in ZooKeeper. Python exceptions are values of the
  type \<open>error\<close>; every \<^verbatim>\<open>assert\<close> of the source is one constructor of
  \<open>assertion\<close>, named after the message the source attaches to it.
\<close>

type_synonym dsn = string
type_synonym node_id = string
type_synonym version = string

record table =
  table_schema :: string
  table_name :: string
  primary_keys :: "string list"
  columns :: "string list"

record replication_set_configuration =
  databases :: "dsn list"
  tables :: "table list"

record trigger =
  trigger_name :: string
  trigger_schema :: string
  trigger_table :: string
  update_of :: "string list"
  procedure_arguments :: "string list"

text \<open>
  One PostgreSQL instance, as far as pgshovel touches it, relative to the schema of the
  cluster: \<open>configuration = None\<close> means that the table
  \<^verbatim>\<open><schema>.configuration\<close> does not exist; otherwise it holds the rows
  \<open>(key, value)\<close> of the table. \<open>log_function\<close> is the software version written
  into the body of \<^verbatim>\<open><schema>.log()\<close>.
\<close>

record database =
  extension_pgq :: bool
  language_plpythonu :: bool
  cluster_schema_exists :: bool
  configuration :: "(string \<times> string) list option"
  log_function :: "version option"
  queues :: "string list"
  triggers :: "trigger list"

record connection =
  conn_dsn :: dsn
  conn_db :: nat

datatype assertion =
    NodeIdIsNone
  | CouldNotTakeOutAdvisoryLock connection
  | VersionsDoNotMatch version version
  | FoundDuplicateNode connection connection
  | SetMustHaveDatabases
  | DuplicateDatabasesNotAllowed dsn
  | TableMustHavePrimaryKeys string string

datatype error =
    AssertionError assertion
  | OperationalError dsn
  | ProgrammingError
  | VersionMismatchError version
  | StoreError

text \<open>
  What the source takes from its surroundings: the running software version
  (\<^verbatim>\<open>pgshovel.__version__\<close>), the names the cluster handle derives, the encoders
  (\<^verbatim>\<open>pickle.dumps\<close>, \<^verbatim>\<open>SerializeToString\<close>, \<^verbatim>\<open>hashlib.md5(...).hexdigest()\<close>),
  the random lock token drawn by \<^verbatim>\<open>random.randint\<close>, the UUIDs the client
  generates, and the order in which Python iterates over a set of pairs, given its
  elements. They are parameters of the model.
\<close>

record env =
  local_version :: version
  get_queue_name :: "string \<Rightarrow> string"
  get_trigger_name :: "string \<Rightarrow> string"
  pickle_dumps :: "string list \<Rightarrow> string"
  serialize_to_string :: "replication_set_configuration \<Rightarrow> string"
  md5_hexdigest :: "string \<Rightarrow> string"
  lock_id :: int
  uuid1 :: "nat \<Rightarrow> node_id"
  set_iteration :: "(string \<times> string) list \<Rightarrow> (string \<times> string) list"

section \<open>Database bootstrap\<close>

text \<open>
  Modelled from the spec: the helpers of \<^verbatim>\<open>pgshovel.database\<close>
  (\<^verbatim>\<open>get_configuration_value\<close>, \<^verbatim>\<open>set_configuration_value\<close>,
  \<^verbatim>\<open>update_configuration_value\<close>, \<^verbatim>\<open>get_node_identifier\<close>,
  \<^verbatim>\<open>get_or_set_node_identifier\<close>) are not part of the sources at hand. They read,
  insert and update one row of the configuration table; reading fails with a
  ProgrammingError when the table does not exist, and the node identifier is the row
  \<open>node_id\<close>, inserted with a fresh UUID when it is absent.
\<close>

definition get_configuration_value :: "database \<Rightarrow> string \<Rightarrow> error + string option" where
  "get_configuration_value db key =
     (case configuration db of
        None \<Rightarrow> Inl ProgrammingError
      | Some rows \<Rightarrow> Inr (map_of rows key))"

definition set_configuration_value :: "database \<Rightarrow> string \<Rightarrow> string \<Rightarrow> error + database" where
  "set_configuration_value db key v =
     (case configuration db of
        None \<Rightarrow> Inl ProgrammingError
      | Some rows \<Rightarrow>
          if key \<in> fst ` set rows then Inl ProgrammingError
          else Inr (db\<lparr>configuration := Some (rows @ [(key, v)])\<rparr>))"

definition update_configuration_value :: "database \<Rightarrow> string \<Rightarrow> string \<Rightarrow> error + database" where
  "update_configuration_value db key v =
     (case configuration db of
        None \<Rightarrow> Inl ProgrammingError
      | Some rows \<Rightarrow>
          Inr (db\<lparr>configuration :=
                 Some (map (\<lambda>(k, old). if k = key then (k, v) else (k, old)) rows)\<rparr>))"

definition get_node_identifier :: "database \<Rightarrow> error + node_id option" where
  "get_node_identifier db = get_configuration_value db ''node_id''"

definition get_or_set_node_identifier :: "node_id \<Rightarrow> database \<Rightarrow> error + (node_id \<times> database)" where
  "get_or_set_node_identifier fresh db =
     (case get_node_identifier db of
        Inl e \<Rightarrow> Inl e
      | Inr (Some node) \<Rightarrow> Inr (node, db)
      | Inr None \<Rightarrow>
          (case set_configuration_value db ''node_id'' fresh of
             Inl e \<Rightarrow> Inl e
           | Inr db' \<Rightarrow> Inr (fresh, db')))"

text \<open>\<^verbatim>\<open>CREATE TABLE IF NOT EXISTS {schema}.configuration\<close>\<close>

definition create_configuration_table :: "database \<Rightarrow> database" where
  "create_configuration_table db =
     (case configuration db of
        None \<Rightarrow> db\<lparr>configuration := Some []\<rparr>
      | Some rows \<Rightarrow> db)"

text \<open>\<^verbatim>\<open>CREATE OR REPLACE FUNCTION {schema}.log()\<close>, whose body carries the version.\<close>

definition create_log_trigger_function :: "env \<Rightarrow> database \<Rightarrow> database" where
  "create_log_trigger_function e db = db\<lparr>log_function := Some (local_version e)\<rparr>"

definition setup_database :: "env \<Rightarrow> node_id \<Rightarrow> database \<Rightarrow> error + (node_id \<times> database)" where
  "setup_database e fresh db0 =
     (let db1 = db0\<lparr>extension_pgq := True\<rparr>;
          db2 = db1\<lparr>language_plpythonu := True\<rparr>;
          db3 = db2\<lparr>cluster_schema_exists := True\<rparr>;
          db4 = create_configuration_table db3
      in case get_configuration_value db4 ''version'' of
           Inl err \<Rightarrow> Inl err
         | Inr stored \<Rightarrow>
             (case (case stored of
                      None \<Rightarrow> set_configuration_value db4 ''version'' (local_version e)
                    | Some v \<Rightarrow>
                        if v \<noteq> local_version e
                        then update_configuration_value db4 ''version'' (local_version e)
                        else Inr db4) of
                Inl err \<Rightarrow> Inl err
              | Inr db5 \<Rightarrow>
                  (case get_or_set_node_identifier fresh db5 of
                     Inl err \<Rightarrow> Inl err
                   | Inr (node, db6) \<Rightarrow> Inr (node, create_log_trigger_function e db6))))"

section \<open>Trigger management\<close>

text \<open>
  Modelled from the spec: \<^verbatim>\<open>pgshovel.utilities.unique\<close> is not part of the sources
  at hand; the spec describes it as removing duplicates while preserving the
  first-seen order. The loop keeps the items seen so far and appends a new one.
\<close>

fun unique_loop :: "'a list \<Rightarrow> 'a list \<Rightarrow> 'a list" where
  "unique_loop result [] = result"
| "unique_loop result (item # sequence) =
     (if item \<in> set result then unique_loop result sequence
      else unique_loop (result @ [item]) sequence)"

definition unique :: "'a list \<Rightarrow> 'a list" where
  "unique sequence = unique_loop [] sequence"

definition get_version :: "env \<Rightarrow> replication_set_configuration \<Rightarrow> string" where
  "get_version e cfg = md5_hexdigest e (serialize_to_string e cfg)"

text \<open>
  The SQL statements that the trigger and set management sends, kept structured: a
  \<^verbatim>\<open>CREATE TRIGGER\<close> statement is the record of the trigger it creates (name,
  table, the \<^verbatim>\<open>UPDATE OF\<close> column list and the arguments of the procedure).
\<close>

datatype statement =
    DropTriggerIfExists string string string
  | CreateTrigger trigger
  | DropTrigger string string string
  | CreateQueue string
  | DropQueue string

definition same_trigger :: "string \<Rightarrow> string \<Rightarrow> string \<Rightarrow> trigger \<Rightarrow> bool" where
  "same_trigger n s t g \<longleftrightarrow> trigger_name g = n \<and> trigger_schema g = s \<and> trigger_table g = t"

fun execute :: "statement \<Rightarrow> database \<Rightarrow> error + database" where
  "execute (DropTriggerIfExists n s t) db =
     Inr (db\<lparr>triggers := filter (\<lambda>g. \<not> same_trigger n s t g) (triggers db)\<rparr>)"
| "execute (CreateTrigger g) db =
     (if \<exists>h \<in> set (triggers db).
           same_trigger (trigger_name g) (trigger_schema g) (trigger_table g) h
      then Inl ProgrammingError
      else Inr (db\<lparr>triggers := triggers db @ [g]\<rparr>))"
| "execute (DropTrigger n s t) db =
     (if \<exists>h \<in> set (triggers db). same_trigger n s t h
      then Inr (db\<lparr>triggers := filter (\<lambda>g. \<not> same_trigger n s t g) (triggers db)\<rparr>)
      else Inl ProgrammingError)"
| "execute (CreateQueue q) db =
     (if extension_pgq db
      then Inr (if q \<in> set (queues db) then db else db\<lparr>queues := queues db @ [q]\<rparr>)
      else Inl ProgrammingError)"
| "execute (DropQueue q) db =
     (if extension_pgq db \<and> q \<in> set (queues db)
      then Inr (db\<lparr>queues := filter (\<lambda>r. r \<noteq> q) (queues db)\<rparr>)
      else Inl ProgrammingError)"

fun execute_all :: "statement list \<Rightarrow> database \<Rightarrow> error + database" where
  "execute_all [] db = Inr db"
| "execute_all (st # sts) db =
     (case execute st db of Inl err \<Rightarrow> Inl err | Inr db' \<Rightarrow> execute_all sts db')"

text \<open>
  The inner function \<^verbatim>\<open>create_trigger\<close> of \<^verbatim>\<open>setup_triggers\<close>:
  \<^verbatim>\<open>DROP TRIGGER IF EXISTS\<close>, then \<^verbatim>\<open>CREATE TRIGGER ... AFTER INSERT OR UPDATE OF
  {columns} OR DELETE ... EXECUTE PROCEDURE {schema}.log(%s, %s, %s, %s)\<close> with the
  four parameters of the source.
\<close>

definition create_trigger ::
  "env \<Rightarrow> string \<Rightarrow> replication_set_configuration \<Rightarrow> string \<Rightarrow> string \<Rightarrow>
   string list \<Rightarrow> string list \<Rightarrow> statement list" where
  "create_trigger e name cfg s t pkeys cols =
     [DropTriggerIfExists (get_trigger_name e name) s t,
      CreateTrigger
        \<lparr>trigger_name = get_trigger_name e name,
         trigger_schema = s,
         trigger_table = t,
         update_of = cols,
         procedure_arguments =
           [get_queue_name e name, pickle_dumps e pkeys, pickle_dumps e cols,
            get_version e cfg]\<rparr>]"

definition setup_triggers ::
  "env \<Rightarrow> string \<Rightarrow> replication_set_configuration \<Rightarrow> statement list" where
  "setup_triggers e name cfg =
     concat (map (\<lambda>tbl.
        let pkeys = unique (primary_keys tbl)
        in create_trigger e name cfg (table_schema tbl) (table_name tbl)
             pkeys (unique (pkeys @ columns tbl)))
       (tables cfg))"

definition drop_trigger :: "env \<Rightarrow> string \<Rightarrow> string \<Rightarrow> string \<Rightarrow> statement" where
  "drop_trigger e name s t = DropTrigger (get_trigger_name e name) s t"

section \<open>Replication set management\<close>

fun validate_databases :: "dsn set \<Rightarrow> dsn list \<Rightarrow> error + unit" where
  "validate_databases dsns [] = Inr ()"
| "validate_databases dsns (d # ds) =
     (if d \<in> dsns then Inl (AssertionError (DuplicateDatabasesNotAllowed d))
      else validate_databases (insert d dsns) ds)"

fun validate_tables :: "table list \<Rightarrow> error + unit" where
  "validate_tables [] = Inr ()"
| "validate_tables (tbl # tbls) =
     (if primary_keys tbl = []
      then Inl (AssertionError (TableMustHavePrimaryKeys (table_schema tbl) (table_name tbl)))
      else validate_tables tbls)"

definition validate_set_configuration :: "replication_set_configuration \<Rightarrow> error + unit" where
  "validate_set_configuration cfg =
     (if databases cfg = [] then Inl (AssertionError SetMustHaveDatabases)
      else case validate_databases {} (databases cfg) of
             Inl err \<Rightarrow> Inl err
           | Inr u \<Rightarrow> validate_tables (tables cfg))"

text \<open>
  \<^verbatim>\<open>configure_set\<close>: the statements sent on one connection. The tables dropped
  between two configurations are a Python set, whose triggers are dropped in the order
  in which Python iterates over it.
\<close>

definition configure_set ::
  "env \<Rightarrow> string \<Rightarrow> replication_set_configuration \<Rightarrow>
   replication_set_configuration option \<Rightarrow> statement list" where
  "configure_set e name cfg previous_configuration =
     CreateQueue (get_queue_name e name) # setup_triggers e name cfg @
     (case previous_configuration of
        None \<Rightarrow> []
      | Some previous \<Rightarrow>
          (let current_tables = map (\<lambda>t. (table_schema t, table_name t)) (tables previous);
               updated_tables = map (\<lambda>t. (table_schema t, table_name t)) (tables cfg);
               dropped_tables =
                 set_iteration e
                   (remdups (filter (\<lambda>t. t \<notin> set updated_tables) current_tables))
           in map (\<lambda>(s, t). drop_trigger e name s t) dropped_tables))"

section \<open>The cluster: ZooKeeper, the PostgreSQL instances and what happened\<close>

record store =
  cluster_version :: "version option"
  sets :: "(string \<times> replication_set_configuration) list"

datatype zk_operation =
    CheckCluster version
  | CreateSet string replication_set_configuration

type_synonym ztransaction = "zk_operation list"

record transaction =
  txn_connection :: connection
  txn_name :: string
  txn_database :: database

datatype event =
    VersionChecked
  | StoreTransactionStarted
  | Connected dsn
  | Skipped dsn
  | ProbeCommitted connection
  | PostgresCommitted connection
  | PostgresCommitFailed connection
  | PostgresRolledBack connection
  | StoreCommitted
  | StoreCommitFailed

text \<open>
  The world outside the process: which instance a DSN reaches (\<open>None\<close>: the
  connection fails), the committed state of every instance, whether an instance
  accepts a commit, the session-level advisory locks held, the ZooKeeper data, the number
  of UUIDs drawn so far, and the history of the externally visible actions of the
  administration functions, oldest first.
\<close>

record world =
  resolve :: "dsn \<Rightarrow> nat option"
  dbs :: "nat \<Rightarrow> database"
  commit_ok :: "nat \<Rightarrow> bool"
  advisory_locks :: "(nat \<times> int) list"
  store :: store
  uuid_calls :: nat
  history :: "event list"

definition record_event :: "event \<Rightarrow> world \<Rightarrow> world" where
  "record_event ev w = w\<lparr>history := history w @ [ev]\<rparr>"

text \<open>
  Modelled from the spec: \<^verbatim>\<open>pgshovel.cluster.check_version\<close> and
  \<^verbatim>\<open>pgshovel.utilities.zookeeper.commit\<close> are not part of the sources at hand. The
  first starts a coordination-store transaction that asserts that the version of the
  cluster equals the running version, and fails when they differ; the second commits the
  operations of a transaction atomically.
\<close>

definition check_version :: "env \<Rightarrow> world \<Rightarrow> (error + ztransaction) \<times> world" where
  "check_version e w =
     (let w1 = record_event VersionChecked w
      in case cluster_version (store w1) of
           None \<Rightarrow> (Inl StoreError, w1)
         | Some v \<Rightarrow>
             if v \<noteq> local_version e then (Inl (VersionMismatchError v), w1)
             else (Inr [CheckCluster v], record_event StoreTransactionStarted w1))"

definition zookeeper_transaction :: "world \<Rightarrow> (error + ztransaction) \<times> world" where
  "zookeeper_transaction w = (Inr [], record_event StoreTransactionStarted w)"

fun apply_operation :: "zk_operation \<Rightarrow> store \<Rightarrow> store option" where
  "apply_operation (CheckCluster v) s =
     (if cluster_version s = Some v then Some s else None)"
| "apply_operation (CreateSet n cfg) s =
     (if n \<in> fst ` set (sets s) then None else Some (s\<lparr>sets := sets s @ [(n, cfg)]\<rparr>))"

fun apply_operations :: "ztransaction \<Rightarrow> store \<Rightarrow> store option" where
  "apply_operations [] s = Some s"
| "apply_operations (opn # opns) s =
     (case apply_operation opn s of None \<Rightarrow> None | Some s' \<Rightarrow> apply_operations opns s')"

definition commit :: "ztransaction \<Rightarrow> world \<Rightarrow> (error + unit) \<times> world" where
  "commit ztransaction w =
     (case apply_operations ztransaction (store w) of
        None \<Rightarrow> (Inl StoreError, record_event StoreCommitFailed w)
      | Some s' \<Rightarrow> (Inr (), record_event StoreCommitted (w\<lparr>store := s'\<rparr>)))"

text \<open>
  Modelled from the spec: \<^verbatim>\<open>pgshovel.utilities.postgresql.Transaction\<close> and
  \<^verbatim>\<open>managed\<close> are not part of the sources at hand. A transaction is opened on a
  connection and sees the committed state of its instance; \<^verbatim>\<open>managed\<close> is the
  scoped batch of the spec, which commits its members on normal exit of the scope, in
  order, and rolls back every member when the scope is left by an exception. The body of
  the scope runs between entry and exit, as the body of any \<^verbatim>\<open>with\<close> statement
  does.
\<close>

definition Transaction :: "world \<Rightarrow> connection \<Rightarrow> string \<Rightarrow> transaction" where
  "Transaction w c n =
     \<lparr>txn_connection = c, txn_name = n, txn_database = dbs w (conn_db c)\<rparr>"

fun commit_all :: "transaction list \<Rightarrow> world \<Rightarrow> (error + unit) \<times> world" where
  "commit_all [] w = (Inr (), w)"
| "commit_all (t # ts) w =
     (let c = txn_connection t
      in if commit_ok w (conn_db c)
         then commit_all ts
                (record_event (PostgresCommitted c)
                   (w\<lparr>dbs := (dbs w)(conn_db c := txn_database t)\<rparr>))
         else (Inl (OperationalError (conn_dsn c)), record_event (PostgresCommitFailed c) w))"

fun rollback_all :: "transaction list \<Rightarrow> world \<Rightarrow> world" where
  "rollback_all [] w = w"
| "rollback_all (t # ts) w =
     rollback_all ts (record_event (PostgresRolledBack (txn_connection t)) w)"

definition managed ::
  "transaction list \<Rightarrow> (world \<Rightarrow> (error + unit) \<times> world) \<Rightarrow> world \<Rightarrow> (error + unit) \<times> world" where
  "managed transactions body w =
     (case body w of
        (Inl err, w') \<Rightarrow> (Inl err, rollback_all transactions w')
      | (Inr u, w') \<Rightarrow> commit_all transactions w')"

text \<open>
  The statement \<^verbatim>\<open>with managed(transactions): commit(ztransaction)\<close>, which ends
  \<^verbatim>\<open>get_managed_databases\<close>, \<^verbatim>\<open>upgrade_cluster\<close>, \<^verbatim>\<open>create_set\<close>,
  \<^verbatim>\<open>update_set\<close> and \<^verbatim>\<open>drop_set\<close>.
\<close>

definition commit_phase :: "transaction list \<Rightarrow> ztransaction \<Rightarrow> world \<Rightarrow> (error + unit) \<times> world" where
  "commit_phase transactions ztransaction w = managed transactions (commit ztransaction) w"

section \<open>Managed databases\<close>

record acquired =
  acq_world :: world
  nodes :: "(node_id \<times> connection) list"
  transactions :: "transaction list"

definition remember :: "event \<Rightarrow> acquired \<Rightarrow> acquired" where
  "remember ev s = s\<lparr>acq_world := record_event ev (acq_world s)\<rparr>"

text \<open>
  The \<^verbatim>\<open>try\<close> / \<^verbatim>\<open>except psycopg2.ProgrammingError\<close> / \<^verbatim>\<open>else\<close> block of
  the loop of \<^verbatim>\<open>get_managed_databases\<close>: the node identifier behind one open
  connection. The version stored on a configured node is compared whatever the
  arguments of the call are; \<^verbatim>\<open>str(None)\<close> is \<^verbatim>\<open>'None'\<close>.
\<close>

definition identify ::
  "env \<Rightarrow> bool \<Rightarrow> connection \<Rightarrow> acquired \<Rightarrow> (error + node_id) \<times> acquired" where
  "identify e configure c s =
     (let w = acq_world s; db = dbs w (conn_db c)
      in case get_node_identifier db of
           Inl err \<Rightarrow>
             if \<not> configure then (Inl err, s)
             else
               (let t = Transaction w c ''setup-database'';
                    s1 = s\<lparr>transactions := transactions s @ [t]\<rparr>
                in if (conn_db c, lock_id e) \<in> set (advisory_locks w)
                   then (Inl (AssertionError (CouldNotTakeOutAdvisoryLock c)), s1)
                   else
                     (let w1 = w\<lparr>advisory_locks := advisory_locks w @ [(conn_db c, lock_id e)],
                                  uuid_calls := Suc (uuid_calls w)\<rparr>
                      in case setup_database e (uuid1 e (uuid_calls w)) (txn_database t) of
                           Inl err' \<Rightarrow> (Inl err', s1\<lparr>acq_world := w1\<rparr>)
                         | Inr (node, db') \<Rightarrow>
                             (Inr node,
                              s\<lparr>acq_world := w1,
                                transactions :=
                                  transactions s @ [t\<lparr>txn_database := db'\<rparr>]\<rparr>)))
         | Inr None \<Rightarrow> (Inl (AssertionError NodeIdIsNone), s)
         | Inr (Some node) \<Rightarrow>
             (let stored = (case get_configuration_value db ''version'' of
                              Inr (Some v) \<Rightarrow> v | _ \<Rightarrow> ''None'')
              in if stored \<noteq> local_version e
                 then (Inl (AssertionError (VersionsDoNotMatch (local_version e) stored)), s)
                 else (Inr node, remember (ProbeCommitted c) s)))"

definition add_node :: "node_id \<Rightarrow> connection \<Rightarrow> acquired \<Rightarrow> (error + unit) \<times> acquired" where
  "add_node node c s =
     (case map_of (nodes s) node of
        Some c' \<Rightarrow> (Inl (AssertionError (FoundDuplicateNode c c')), s)
      | None \<Rightarrow> (Inr (), s\<lparr>nodes := nodes s @ [(node, c)]\<rparr>))"

fun connect_all ::
  "env \<Rightarrow> bool \<Rightarrow> bool \<Rightarrow> dsn list \<Rightarrow> acquired \<Rightarrow> (error + unit) \<times> acquired" where
  "connect_all e configure skip_inaccessible [] s = (Inr (), s)"
| "connect_all e configure skip_inaccessible (d # ds) s =
     (case resolve (acq_world s) d of
        None \<Rightarrow>
          if skip_inaccessible
          then connect_all e configure skip_inaccessible ds (remember (Skipped d) s)
          else (Inl (OperationalError d), s)
      | Some i \<Rightarrow>
          (case identify e configure \<lparr>conn_dsn = d, conn_db = i\<rparr> (remember (Connected d) s) of
             (Inl err, s1) \<Rightarrow> (Inl err, s1)
           | (Inr node, s1) \<Rightarrow>
               (case add_node node \<lparr>conn_dsn = d, conn_db = i\<rparr> s1 of
                  (Inl err, s2) \<Rightarrow> (Inl err, s2)
                | (Inr u, s2) \<Rightarrow> connect_all e configure skip_inaccessible ds s2)))"

text \<open>
  When the call fails, the connections are dropped with their transactions: nothing
  was committed, the advisory locks of the sessions are gone, and only the history shows
  what was done.
\<close>

definition abandon :: "world \<Rightarrow> acquired \<Rightarrow> world" where
  "abandon w s = w\<lparr>history := history (acq_world s), uuid_calls := uuid_calls (acq_world s)\<rparr>"

definition get_managed_databases ::
  "env \<Rightarrow> world \<Rightarrow> dsn list \<Rightarrow> bool \<Rightarrow> bool \<Rightarrow> bool \<Rightarrow>
   (error + (node_id \<times> connection) list) \<times> world" where
  "get_managed_databases e w dsns configure skip_inaccessible same_version =
     (if dsns = [] then (Inr [], w)
      else
        case (if same_version then check_version e w else zookeeper_transaction w) of
          (Inl err, w1) \<Rightarrow> (Inl err, w1)
        | (Inr ztransaction, w1) \<Rightarrow>
            (case connect_all e configure skip_inaccessible dsns
                    \<lparr>acq_world = w1, nodes = [], transactions = []\<rparr> of
               (Inl err, s) \<Rightarrow> (Inl err, abandon w1 s)
             | (Inr u, s) \<Rightarrow>
                 if transactions s \<noteq> []
                 then (case commit_phase (transactions s) ztransaction (acq_world s) of
                         (Inl err, w2) \<Rightarrow> (Inl err, w2)
                       | (Inr u', w2) \<Rightarrow> (Inr (nodes s), w2))
                 else (Inr (nodes s), acq_world s)))"

text \<open>
  \<^verbatim>\<open>create_set\<close>: validation, the managed databases, the version check, one
  transaction per database with the statements of \<^verbatim>\<open>configure_set\<close>, the staged
  creation of the set in ZooKeeper, and the commit phase. The databases are visited in
  the order in which they entered the dictionary.
\<close>

fun configure_all ::
  "env \<Rightarrow> world \<Rightarrow> string \<Rightarrow> replication_set_configuration \<Rightarrow> connection list \<Rightarrow>
   error + transaction list" where
  "configure_all e w name cfg [] = Inr []"
| "configure_all e w name cfg (c # cs) =
     (let t = Transaction w c (''create-set:'' @ name)
      in case execute_all (configure_set e name cfg None) (txn_database t) of
           Inl err \<Rightarrow> Inl err
         | Inr db' \<Rightarrow>
             (case configure_all e w name cfg cs of
                Inl err \<Rightarrow> Inl err
              | Inr ts \<Rightarrow> Inr (t\<lparr>txn_database := db'\<rparr> # ts)))"

definition create_set ::
  "env \<Rightarrow> world \<Rightarrow> string \<Rightarrow> replication_set_configuration \<Rightarrow> (error + unit) \<times> world" where
  "create_set e w name cfg =
     (case validate_set_configuration cfg of
        Inl err \<Rightarrow> (Inl err, w)
      | Inr u \<Rightarrow>
          (case get_managed_databases e w (databases cfg) True False True of
             (Inl err, w1) \<Rightarrow> (Inl err, w1)
           | (Inr managed_databases, w1) \<Rightarrow>
               (case check_version e w1 of
                  (Inl err, w2) \<Rightarrow> (Inl err, w2)
                | (Inr ztransaction, w2) \<Rightarrow>
                    (case configure_all e w2 name cfg (map snd managed_databases) of
                       Inl err \<Rightarrow> (Inl err, w2)
                     | Inr ts \<Rightarrow>
                         commit_phase ts (ztransaction @ [CreateSet name cfg]) w2))))"

text \<open>
  A database that \<^verbatim>\<open>setup_database\<close> has brought to the running version, with
  node identifier \<open>n\<close>.
\<close>

definition bootstrapped :: "env \<Rightarrow> node_id \<Rightarrow> database \<Rightarrow> bool" where
  "bootstrapped e n db \<longleftrightarrow>
     extension_pgq db \<and> language_plpythonu db \<and> cluster_schema_exists db \<and>
     log_function db = Some (local_version e) \<and>
     (case configuration db of
        None \<Rightarrow> False
      | Some rows \<Rightarrow>
          map_of rows ''version'' = Some (local_version e) \<and> map_of rows ''node_id'' = Some n)"

text \<open>
  What a DSN stands for in a world: the connection it opens, the node identifier stored
  on the instance it reaches, and whether the probe of \<^verbatim>\<open>get_managed_databases\<close>
  finds a configured node of the running version there.
\<close>

definition connection_of :: "world \<Rightarrow> dsn \<Rightarrow> connection" where
  "connection_of w d = \<lparr>conn_dsn = d, conn_db = (case resolve w d of None \<Rightarrow> 0 | Some i \<Rightarrow> i)\<rparr>"

definition node_of :: "world \<Rightarrow> dsn \<Rightarrow> node_id" where
  "node_of w d =
     (case resolve w d of
        None \<Rightarrow> []
      | Some i \<Rightarrow> (case get_node_identifier (dbs w i) of Inr (Some n) \<Rightarrow> n | _ \<Rightarrow> []))"

definition probe_succeeds :: "env \<Rightarrow> world \<Rightarrow> dsn \<Rightarrow> bool" where
  "probe_succeeds e w d =
     (case resolve w d of
        None \<Rightarrow> False
      | Some i \<Rightarrow>
          (case get_node_identifier (dbs w i) of
             Inr (Some n) \<Rightarrow>
               get_configuration_value (dbs w i) ''version'' = Inr (Some (local_version e))
           | _ \<Rightarrow> False))"

text \<open>The entry of the result of \<^verbatim>\<open>get_managed_databases\<close> for a DSN.\<close>

definition entry :: "world \<Rightarrow> dsn \<Rightarrow> node_id \<times> connection" where
  "entry w d = (node_of w d, connection_of w d)"

section \<open>Batched streams\<close>

text \<open>
  A message of the stream has a header (publisher, sequence number) and one operation;
  a batch operation carries the batch identifier and one of Begin, Mutation, Commit and
  Rollback. The validated stream pairs every message with the state the transaction
  validator reached on it.
\<close>

type_synonym publisher = string
type_synonym mutation = string

record batch_identifier =
  batch_id :: nat
  batch_node :: string

datatype operation =
    BeginOperation
  | MutationOperation mutation
  | CommitOperation
  | RollbackOperation
  | OtherOperation
  | UnsetOperation

datatype envelope =
    BatchOperation batch_identifier operation
  | NotABatchOperation

record message =
  header_publisher :: publisher
  header_sequence :: nat
  body :: envelope

datatype state =
    InTransaction publisher batch_identifier
  | Committed publisher batch_identifier
  | RolledBack publisher batch_identifier

fun state_publisher :: "state \<Rightarrow> publisher" where
  "state_publisher (InTransaction p b) = p"
| "state_publisher (Committed p b) = p"
| "state_publisher (RolledBack p b) = p"

fun state_batch_identifier :: "state \<Rightarrow> batch_identifier" where
  "state_batch_identifier (InTransaction p b) = b"
| "state_batch_identifier (Committed p b) = b"
| "state_batch_identifier (RolledBack p b) = b"

text \<open>
  How an iterator of mutations ends: by returning, or by raising one of the exceptions
  of \<^verbatim>\<open>make_mutation_iterator\<close>.
\<close>

datatype ending =
    Returned
  | TransactionCancelled
  | TransactionAborted
  | ValueError
  | TypeError
  | NotBatchOperation

text \<open>
  \<^verbatim>\<open>make_mutation_iterator\<close>, run to its end by the consumer: the mutations it
  yields, and how it ends. An operation of another kind than the four reaches the last
  branch, \<^verbatim>\<open>raise ValueError\<close>; when no operation is set, \<^verbatim>\<open>WhichOneof\<close> gives
  \<^verbatim>\<open>None\<close> and \<^verbatim>\<open>getattr\<close> in \<^verbatim>\<open>get_operation\<close> raises a TypeError.
\<close>

fun make_mutation_iterator :: "message list \<Rightarrow> mutation list \<times> ending" where
  "make_mutation_iterator [] = ([], TransactionAborted)"
| "make_mutation_iterator (m # messages) =
     (case body m of
        NotABatchOperation \<Rightarrow> ([], NotBatchOperation)
      | BatchOperation b BeginOperation \<Rightarrow> make_mutation_iterator messages
      | BatchOperation b (MutationOperation x) \<Rightarrow>
          (case make_mutation_iterator messages of (xs, e) \<Rightarrow> (x # xs, e))
      | BatchOperation b CommitOperation \<Rightarrow> ([], Returned)
      | BatchOperation b RollbackOperation \<Rightarrow> ([], TransactionCancelled)
      | BatchOperation b OtherOperation \<Rightarrow> ([], ValueError)
      | BatchOperation b UnsetOperation \<Rightarrow> ([], TypeError))"

text \<open>
  \<^verbatim>\<open>itertools.groupby\<close>: the maximal runs of consecutive items with equal keys.
\<close>

function groupby :: "('a \<Rightarrow> 'k) \<Rightarrow> 'a list \<Rightarrow> ('k \<times> 'a list) list" where
  "groupby key [] = []"
| "groupby key (x # xs) =
     (key x, x # takeWhile (\<lambda>y. key y = key x) xs)
       # groupby key (dropWhile (\<lambda>y. key y = key x) xs)"
  by pat_completeness auto
termination
  by (relation "measure (\<lambda>(key, xs). length xs)")
     (auto simp: length_dropWhile_le less_Suc_eq_le)

definition batch_key :: "state \<times> message \<Rightarrow> publisher \<times> batch_identifier" where
  "batch_key = (\<lambda>(st, m). (header_publisher m, state_batch_identifier st))"

definition batched :: "(state \<times> message) list \<Rightarrow> (batch_identifier \<times> mutation list \<times> ending) list" where
  "batched messages =
     map (\<lambda>((publisher, b), items). (b, make_mutation_iterator (map snd items)))
       (groupby batch_key messages)"

text \<open>
  Modelled from the spec: the transaction validator
  (\<^verbatim>\<open>pgshovel.replication.validation.transactions\<close>) is not part of the sources at
  hand, only its tests are. Its guards are those the tests exercise; its transitions are
  those of the spec: Begin starts a transaction from no transaction, from Committed when
  the batch identifier advanced on the same node or the publisher differs, and from
  RolledBack when the batch identifier stays on the same node or the publisher differs;
  Mutation, Commit and Rollback need the publisher and the batch of the open
  transaction.
\<close>

datatype invalid = InvalidEvent | InvalidBatch | InvalidPublisher

definition require_batch_id_advanced_if_same_node :: "state \<Rightarrow> batch_identifier \<Rightarrow> bool" where
  "require_batch_id_advanced_if_same_node st b \<longleftrightarrow>
     (if batch_node b = batch_node (state_batch_identifier st)
      then batch_id (state_batch_identifier st) < batch_id b else True)"

definition require_batch_id_not_advanced_if_same_node :: "state \<Rightarrow> batch_identifier \<Rightarrow> bool" where
  "require_batch_id_not_advanced_if_same_node st b \<longleftrightarrow>
     (if batch_node b = batch_node (state_batch_identifier st)
      then batch_id b = batch_id (state_batch_identifier st) else True)"

definition in_transaction ::
  "publisher \<Rightarrow> batch_identifier \<Rightarrow> publisher \<Rightarrow> batch_identifier \<Rightarrow> state \<Rightarrow> invalid + state" where
  "in_transaction p sb pub b target =
     (if pub \<noteq> p then Inl InvalidPublisher
      else if b \<noteq> sb then Inl InvalidBatch
      else Inr target)"

fun transition ::
  "state option \<Rightarrow> publisher \<Rightarrow> batch_identifier \<Rightarrow> operation \<Rightarrow> invalid + state" where
  "transition None pub b BeginOperation = Inr (InTransaction pub b)"
| "transition (Some (InTransaction p sb)) pub b (MutationOperation x) =
     in_transaction p sb pub b (InTransaction p sb)"
| "transition (Some (InTransaction p sb)) pub b CommitOperation =
     in_transaction p sb pub b (Committed p sb)"
| "transition (Some (InTransaction p sb)) pub b RollbackOperation =
     in_transaction p sb pub b (RolledBack p sb)"
| "transition (Some (Committed p sb)) pub b BeginOperation =
     (if require_batch_id_advanced_if_same_node (Committed p sb) b \<or> pub \<noteq> p
      then Inr (InTransaction pub b) else Inl InvalidBatch)"
| "transition (Some (RolledBack p sb)) pub b BeginOperation =
     (if require_batch_id_not_advanced_if_same_node (RolledBack p sb) b \<or> pub \<noteq> p
      then Inr (InTransaction pub b) else Inl InvalidBatch)"
| "transition st pub b opn = Inl InvalidEvent"

fun validate_from :: "state option \<Rightarrow> message list \<Rightarrow> invalid + (state \<times> message) list" where
  "validate_from st [] = Inr []"
| "validate_from st (m # messages) =
     (case body m of
        NotABatchOperation \<Rightarrow> Inl InvalidEvent
      | BatchOperation b opn \<Rightarrow>
          (case transition st (header_publisher m) b opn of
             Inl err \<Rightarrow> Inl err
           | Inr st' \<Rightarrow>
               (case validate_from (Some st') messages of
                  Inl err \<Rightarrow> Inl err
                | Inr rest \<Rightarrow> Inr ((st', m) # rest))))"

definition validate_transaction_state :: "message list \<Rightarrow> invalid + (state \<times> message) list" where
  "validate_transaction_state messages = validate_from None messages"

definition mutations_of :: "message list \<Rightarrow> mutation list" where
  "mutations_of messages =
     concat (map (\<lambda>m. case body m of BatchOperation b (MutationOperation x) \<Rightarrow> [x] | _ \<Rightarrow> [])
       messages)"

section \<open>Consumer\<close>

text \<open>
  \<^verbatim>\<open>Consumer.run\<close> as a machine that moves once per tick of its surroundings.
  While the thread is inside \<^verbatim>\<open>self._ownership_lock.acquire()\<close> it moves only when
  the lock recipe grants the lease; in the main loop one tick is one pass, which starts
  with \<^verbatim>\<open>self.__stop_requested.wait(0.01)\<close>.
\<close>

datatype consumer_phase = AcquiringLease | Running | Stopped | Failed

record consumer =
  phase :: consumer_phase
  consumer_stop_requested :: bool
  ready :: bool
  batches :: "nat list"

record tick =
  lease_granted :: bool
  lease_is_acquired :: bool
  next_batch :: "nat option"

definition new_consumer :: consumer where
  "new_consumer =
     \<lparr>phase = AcquiringLease, consumer_stop_requested = False, ready = False, batches = []\<rparr>"

definition consumer_stop_async :: "consumer \<Rightarrow> consumer" where
  "consumer_stop_async c = c\<lparr>consumer_stop_requested := True\<rparr>"

definition consumer_tick :: "tick \<Rightarrow> consumer \<Rightarrow> consumer" where
  "consumer_tick t c =
     (case phase c of
        AcquiringLease \<Rightarrow>
          if lease_granted t then c\<lparr>phase := Running, ready := True\<rparr> else c
      | Running \<Rightarrow>
          if consumer_stop_requested c then c\<lparr>phase := Stopped\<rparr>
          else if \<not> lease_is_acquired t then c\<lparr>phase := Failed\<rparr>
          else if batches c = []
               then (case next_batch t of None \<Rightarrow> c | Some b \<Rightarrow> c\<lparr>batches := [b]\<rparr>)
               else c
      | Stopped \<Rightarrow> c
      | Failed \<Rightarrow> c)"

definition consumer_run :: "tick list \<Rightarrow> consumer \<Rightarrow> consumer" where
  "consumer_run ticks c = fold consumer_tick ticks c"

section \<open>Coordinator\<close>

text \<open>
  The control queue of the Coordinator holds commands, each with the future created by
  \<^verbatim>\<open>subscribe_async\<close> or \<^verbatim>\<open>unsubscribe_async\<close>; a future is identified by its
  position in the list of all futures created. The threads are interleaved as a
  sequence of actions: a client call, or one step of the thread of
  \<^verbatim>\<open>Coordinator.run\<close>, which is given the consumers that become ready during the
  step and those found dead. A step is one pass of the loop, or, while the thread is
  inside \<^verbatim>\<open>consumer.ready.wait()\<close> for the consumer and the future recorded in
  \<open>waiting\<close>, the rest of the pass once that consumer is ready.
\<close>

datatype command =
    Subscribe string replication_set_configuration
  | Unsubscribe string

datatype future = Pending | Result string | KeyError string | Cancelled

datatype coordinator_phase = Looping | WaitingForReady | Exited

record coordinator =
  coordinator_phase :: coordinator_phase
  stop_requested :: bool
  waiting :: "(string \<times> nat) option"
  queue :: "(command \<times> nat) list"
  futures :: "future list"
  consumers :: "(string \<times> replication_set_configuration) list"

datatype action =
    SubscribeAsync string replication_set_configuration
  | UnsubscribeAsync string
  | StopAsync
  | Iteration "string list" "string list"

definition new_coordinator :: coordinator where
  "new_coordinator =
     \<lparr>coordinator_phase = Looping, stop_requested = False, waiting = None, queue = [],
      futures = [], consumers = []\<rparr>"

text \<open>
  Modelled from the spec: \<^verbatim>\<open>pgshovel.utilities.async.invoke\<close> is not part of the
  sources at hand; it runs the operation and completes the future of the command with
  its outcome, the value returned or the exception raised.
\<close>

definition invoke :: "future \<Rightarrow> nat \<Rightarrow> coordinator \<Rightarrow> coordinator" where
  "invoke outcome response c = c\<lparr>futures := (futures c)[response := outcome]\<rparr>"

text \<open>
  The inner loop \<^verbatim>\<open>while not self.__queue.empty()\<close> with the operations
  \<^verbatim>\<open>subscribe\<close> and \<^verbatim>\<open>unsubscribe\<close>. Subscribing a new group stores the new
  consumer, starts it and waits for it to be ready, without a timeout.
\<close>

fun perform_all :: "string list \<Rightarrow> (command \<times> nat) list \<Rightarrow> coordinator \<Rightarrow> coordinator" where
  "perform_all becoming_ready [] c = c\<lparr>queue := []\<rparr>"
| "perform_all becoming_ready ((Subscribe name cfg, response) # pending) c =
     (if name \<in> fst ` set (consumers c)
      then perform_all becoming_ready pending
             (invoke (Result name) response
                (c\<lparr>consumers :=
                     map (\<lambda>(n, old). if n = name then (n, cfg) else (n, old)) (consumers c)\<rparr>))
      else if name \<in> set becoming_ready
      then perform_all becoming_ready pending
             (invoke (Result name) response (c\<lparr>consumers := consumers c @ [(name, cfg)]\<rparr>))
      else c\<lparr>consumers := consumers c @ [(name, cfg)],
             coordinator_phase := WaitingForReady, waiting := Some (name, response),
             queue := pending\<rparr>)"
| "perform_all becoming_ready ((Unsubscribe name, response) # pending) c =
     (if name \<in> fst ` set (consumers c)
      then perform_all becoming_ready pending
             (invoke (Result name) response
                (c\<lparr>consumers := filter (\<lambda>(n, cfg). n \<noteq> name) (consumers c)\<rparr>))
      else perform_all becoming_ready pending (invoke (KeyError name) response c))"

text \<open>
  The end of a pass, after the commands: a consumer that is not running ends the loop
  with a RuntimeError.
\<close>

definition supervise :: "string list \<Rightarrow> coordinator \<Rightarrow> coordinator" where
  "supervise dead c =
     (if coordinator_phase c = WaitingForReady then c
      else if \<exists>n \<in> fst ` set (consumers c). n \<in> set dead
           then c\<lparr>coordinator_phase := Exited\<rparr>
           else c)"

definition iteration :: "string list \<Rightarrow> string list \<Rightarrow> coordinator \<Rightarrow> coordinator" where
  "iteration becoming_ready dead c =
     (case coordinator_phase c of
        Looping \<Rightarrow>
          if stop_requested c then c\<lparr>coordinator_phase := Exited\<rparr>
          else supervise dead (perform_all becoming_ready (queue c) c)
      | WaitingForReady \<Rightarrow>
          (case waiting c of
             None \<Rightarrow> c
           | Some (name, response) \<Rightarrow>
               if name \<in> set becoming_ready
               then supervise dead
                      (perform_all becoming_ready (queue c)
                         (invoke (Result name) response
                            (c\<lparr>coordinator_phase := Looping, waiting := None\<rparr>)))
               else c)
      | Exited \<Rightarrow> c)"

definition enqueue :: "command \<Rightarrow> coordinator \<Rightarrow> coordinator" where
  "enqueue cmd c =
     c\<lparr>queue := queue c @ [(cmd, length (futures c))], futures := futures c @ [Pending]\<rparr>"

fun act :: "action \<Rightarrow> coordinator \<Rightarrow> coordinator" where
  "act (SubscribeAsync name cfg) c = enqueue (Subscribe name cfg) c"
| "act (UnsubscribeAsync name) c = enqueue (Unsubscribe name) c"
| "act StopAsync c = c\<lparr>stop_requested := True\<rparr>"
| "act (Iteration becoming_ready dead) c = iteration becoming_ready dead c"

definition run_actions :: "action list \<Rightarrow> coordinator \<Rightarrow> coordinator" where
  "run_actions actions c = fold act actions c"





section \<open>Concrete inputs\<close>

definition example_env :: env where
  "example_env =
     \<lparr>local_version = ''0.2'',
      get_queue_name = (\<lambda>n. ''c_'' @ n),
      get_trigger_name = (\<lambda>n. ''c_'' @ n),
      pickle_dumps = (\<lambda>xs. concat (map (\<lambda>x. x @ '';'') xs)),
      serialize_to_string = (\<lambda>cfg. concat (databases cfg)),
      md5_hexdigest = (\<lambda>s. ''md5:'' @ s),
      lock_id = 7,
      uuid1 = (\<lambda>n. ''uuid-'' @ replicate n (CHR ''x'')),
      set_iteration = rev\<rparr>"

definition blank_database :: database where
  "blank_database =
     \<lparr>extension_pgq = False, language_plpythonu = False, cluster_schema_exists = False,
      configuration = None, log_function = None, queues = [], triggers = []\<rparr>"

definition configured_database :: "version \<Rightarrow> node_id \<Rightarrow> database" where
  "configured_database v n =
     \<lparr>extension_pgq = True, language_plpythonu = True, cluster_schema_exists = True,
      configuration = Some [(''version'', v), (''node_id'', n)], log_function = Some v,
      queues = [], triggers = []\<rparr>"

text \<open>
  Three instances: one configured at the running version 0.2 (reached by the DSNs
  \<open>d1\<close> and \<open>d1b\<close>), one configured at the older version 0.1 (\<open>d2\<close>) and one
  never configured (\<open>d3\<close>).
\<close>

definition example_world :: world where
  "example_world =
     \<lparr>resolve = (\<lambda>d. if d = ''d1'' then Some 0 else if d = ''d2'' then Some 1
                      else if d = ''d3'' then Some 2 else if d = ''d1b'' then Some 0
                      else if d = ''d4'' then Some 3 else None),
      dbs = (\<lambda>i. if i = 0 then configured_database ''0.2'' ''n1''
                  else if i = 1 then configured_database ''0.1'' ''n2''
                  else if i = 3 then configured_database ''0.2'' ''n4''
                  else blank_database),
      commit_ok = (\<lambda>i. True),
      advisory_locks = [],
      store = \<lparr>cluster_version = Some ''0.2'', sets = []\<rparr>,
      uuid_calls = 0,
      history = []\<rparr>"

definition orders :: replication_set_configuration where
  "orders =
     \<lparr>databases = [''d1''],
      tables = [\<lparr>table_schema = ''public'', table_name = ''orders'',
                 primary_keys = [''id''], columns = [''total'']\<rparr>]\<rparr>"

definition example_transaction :: transaction where
  "example_transaction =
     Transaction example_world \<lparr>conn_dsn = ''d1'', conn_db = 0\<rparr> ''create-set:orders''"

definition b1 :: batch_identifier where
  "b1 = \<lparr>batch_id = 1, batch_node = ''n1''\<rparr>"

definition msg :: "nat \<Rightarrow> operation \<Rightarrow> message" where
  "msg i opn = \<lparr>header_publisher = ''A'', header_sequence = i, body = BatchOperation b1 opn\<rparr>"

text \<open>
  A publisher that rolls batch 1 back and publishes it again, and a publisher that
  stops in the middle of batch 1.
\<close>

definition retried_batch :: "message list" where
  "retried_batch =
     [msg 0 BeginOperation, msg 1 (MutationOperation ''m1''), msg 2 RollbackOperation,
      msg 3 BeginOperation, msg 4 (MutationOperation ''m1''), msg 5 (MutationOperation ''m2''),
      msg 6 CommitOperation]"

text \<open>
  A batch committed by one publisher, and the batch with the same identifier begun by
  another publisher.
\<close>

definition publisher_changed :: "message list" where
  "publisher_changed =
     [msg 0 BeginOperation, msg 1 CommitOperation,
      (msg 0 BeginOperation)\<lparr>header_publisher := ''B''\<rparr>]"

definition crashed_batch :: "message list" where
  "crashed_batch = [msg 0 BeginOperation, msg 1 (MutationOperation ''m1'')]"

definition lease_held_elsewhere :: tick where
  "lease_held_elsewhere = \<lparr>lease_granted = False, lease_is_acquired = False, next_batch = None\<rparr>"

section \<open>Properties of the database bootstrap\<close>

lemma map_of_update_row:
  "map_of (map (\<lambda>(k, old). if k = key then (k, v) else (k, old)) rows) k' =
     (if k' = key then (case map_of rows key of None \<Rightarrow> None | Some u \<Rightarrow> Some v)
      else map_of rows k')"
  by (induction rows) (auto split: option.splits)

lemma setup_database_again:
  assumes "bootstrapped e n db"
  shows "setup_database e fresh db = Inr (n, db)"
proof -
  obtain rows where r: "configuration db = Some rows"
    "map_of rows ''version'' = Some (local_version e)" "map_of rows ''node_id'' = Some n"
    using assms by (auto simp: bootstrapped_def split: option.splits)
  have f: "extension_pgq db" "language_plpythonu db" "cluster_schema_exists db"
    "log_function db = Some (local_version e)"
    using assms by (auto simp: bootstrapped_def)
  have same: "db\<lparr>extension_pgq := True, language_plpythonu := True,
     cluster_schema_exists := True\<rparr> = db"
    using f by (cases db) simp
  show ?thesis
    using r f same
    by (simp add: setup_database_def get_or_set_node_identifier_def get_node_identifier_def
        get_configuration_value_def create_configuration_table_def
        create_log_trigger_function_def)
qed

lemma setup_database_first:
  "\<exists>n db1. setup_database e fresh db = Inr (n, db1) \<and> bootstrapped e n db1"
proof -
  let ?db3 = "db\<lparr>extension_pgq := True, language_plpythonu := True,
     cluster_schema_exists := True\<rparr>"
  let ?v = "local_version e"
  obtain rows where r: "configuration (create_configuration_table ?db3) = Some rows"
    by (cases "configuration db") (auto simp: create_configuration_table_def)
  let ?db4 = "create_configuration_table ?db3"
  have flags: "extension_pgq ?db4" "language_plpythonu ?db4" "cluster_schema_exists ?db4"
    by (auto simp: create_configuration_table_def split: option.splits)
  define rows5 where "rows5 =
     (case map_of rows ''version'' of
        None \<Rightarrow> rows @ [(''version'', ?v)]
      | Some u \<Rightarrow>
          if u \<noteq> ?v
          then map (\<lambda>(k, old). if k = ''version'' then (k, ?v) else (k, old)) rows
          else rows)"
  have v5: "map_of rows5 ''version'' = Some ?v"
    unfolding rows5_def
    by (auto simp: map_of_update_row map_add_def simp del: map_of_eq_None_iff
        split: option.splits)
  have n5: "map_of rows5 ''node_id'' = map_of rows ''node_id''"
    unfolding rows5_def
    by (auto simp: map_of_update_row map_add_def simp del: map_of_eq_None_iff
        split: option.splits)
  have step5: "(case map_of rows ''version'' of
                  None \<Rightarrow> set_configuration_value ?db4 ''version'' ?v
                | Some u \<Rightarrow>
                    if u \<noteq> ?v then update_configuration_value ?db4 ''version'' ?v
                    else Inr ?db4) = Inr (?db4\<lparr>configuration := Some rows5\<rparr>)"
  proof (cases "map_of rows ''version''")
    case None
    then have "''version'' \<notin> fst ` set rows" by (simp add: map_of_eq_None_iff)
    then show ?thesis using r None by (simp add: rows5_def set_configuration_value_def)
  next
    case (Some u)
    then show ?thesis using r by (simp add: rows5_def update_configuration_value_def)
  qed
  define rows6 where "rows6 =
     (case map_of rows5 ''node_id'' of None \<Rightarrow> rows5 @ [(''node_id'', fresh)] | Some m \<Rightarrow> rows5)"
  define n where "n = (case map_of rows5 ''node_id'' of None \<Rightarrow> fresh | Some m \<Rightarrow> m)"
  have v6: "map_of rows6 ''version'' = Some ?v"
    unfolding rows6_def using v5
    by (auto simp: map_add_def simp del: map_of_eq_None_iff split: option.splits)
  have n6: "map_of rows6 ''node_id'' = Some n"
    unfolding rows6_def n_def
    by (auto simp: map_add_def simp del: map_of_eq_None_iff split: option.splits)
  have step6: "get_or_set_node_identifier fresh (?db4\<lparr>configuration := Some rows5\<rparr>)
      = Inr (n, ?db4\<lparr>configuration := Some rows6\<rparr>)"
  proof (cases "map_of rows5 ''node_id''")
    case None
    then have "''node_id'' \<notin> fst ` set rows5" by (simp add: map_of_eq_None_iff)
    then show ?thesis using None
      by (simp add: rows6_def n_def get_or_set_node_identifier_def get_node_identifier_def
          get_configuration_value_def set_configuration_value_def)
  next
    case (Some m)
    then show ?thesis
      by (simp add: rows6_def n_def get_or_set_node_identifier_def get_node_identifier_def
          get_configuration_value_def)
  qed
  have run: "setup_database e fresh db =
      Inr (n, create_log_trigger_function e (?db4\<lparr>configuration := Some rows6\<rparr>))"
    using r step5 step6
    by (simp add: setup_database_def get_configuration_value_def)
  have "bootstrapped e n (create_log_trigger_function e (?db4\<lparr>configuration := Some rows6\<rparr>))"
    using flags v6 n6 by (simp add: bootstrapped_def create_log_trigger_function_def)
  then show ?thesis using run by blast
qed

text \<open>
  C4. Running \<^verbatim>\<open>setup_database\<close> on any database succeeds, and running it again on
  the database it leaves, with whatever UUID the client would draw, returns the same
  node identifier and leaves the database exactly as it was: the rows of the
  configuration table (so their number), the stored \<open>node_id\<close>, the stored version,
  which is the running version, and the log function are those of the first run.
\<close>

theorem setup_database_idempotent:
  "\<exists>node db1. setup_database e fresh db = Inr (node, db1)
      \<and> setup_database e fresh' db1 = Inr (node, db1)
      \<and> get_configuration_value db1 ''node_id'' = Inr (Some node)
      \<and> get_configuration_value db1 ''version'' = Inr (Some (local_version e))
      \<and> log_function db1 = Some (local_version e)"
proof -
  obtain n db1 where a: "setup_database e fresh db = Inr (n, db1)" and b: "bootstrapped e n db1"
    using setup_database_first by blast
  have c: "setup_database e fresh' db1 = Inr (n, db1)"
    using b by (rule setup_database_again)
  have d: "get_configuration_value db1 ''node_id'' = Inr (Some n)"
    "get_configuration_value db1 ''version'' = Inr (Some (local_version e))"
    "log_function db1 = Some (local_version e)"
    using b by (auto simp: bootstrapped_def get_configuration_value_def split: option.splits)
  show ?thesis using a c d by blast
qed

section \<open>Properties of the trigger columns\<close>

lemma unique_loop_prefix:
  "unique_loop (a @ b) xs = a @ unique_loop b (filter (\<lambda>x. x \<notin> set a) xs)"
  by (induction xs arbitrary: b) auto

lemma unique_loop_seen:
  "unique_loop acc xs = acc @ unique (filter (\<lambda>x. x \<notin> set acc) xs)"
  using unique_loop_prefix[of acc "[]" xs] by (simp add: unique_def)

lemma unique_Nil: "unique [] = []"
  by (simp add: unique_def)

lemma unique_Cons: "unique (x # xs) = x # unique (filter (\<lambda>y. y \<noteq> x) xs)"
  using unique_loop_seen[of "[x]" xs] by (simp add: unique_def)

lemma set_unique: "set (unique xs) = set xs"
proof (induction "length xs" arbitrary: xs rule: less_induct)
  case less
  show ?case
  proof (cases xs)
    case Nil
    then show ?thesis by (simp add: unique_Nil)
  next
    case (Cons x ys)
    have "length (filter (\<lambda>y. y \<noteq> x) ys) < length xs"
      using Cons by (simp add: le_imp_less_Suc)
    then have "set (unique (filter (\<lambda>y. y \<noteq> x) ys)) = set (filter (\<lambda>y. y \<noteq> x) ys)"
      by (rule less)
    then show ?thesis using Cons by (auto simp: unique_Cons)
  qed
qed

lemma distinct_unique: "distinct (unique xs)"
proof (induction "length xs" arbitrary: xs rule: less_induct)
  case less
  show ?case
  proof (cases xs)
    case Nil
    then show ?thesis by (simp add: unique_Nil)
  next
    case (Cons x ys)
    have "length (filter (\<lambda>y. y \<noteq> x) ys) < length xs"
      using Cons by (simp add: le_imp_less_Suc)
    then have "distinct (unique (filter (\<lambda>y. y \<noteq> x) ys))" by (rule less)
    then show ?thesis using Cons by (auto simp: unique_Cons set_unique)
  qed
qed

lemma unique_filter: "unique (filter P xs) = filter P (unique xs)"
proof (induction "length xs" arbitrary: xs rule: less_induct)
  case less
  show ?case
  proof (cases xs)
    case Nil
    then show ?thesis by (simp add: unique_Nil)
  next
    case (Cons x ys)
    have l: "length (filter (\<lambda>y. y \<noteq> x) ys) < length xs"
      using Cons by (simp add: le_imp_less_Suc)
    have ih: "unique (filter P (filter (\<lambda>y. y \<noteq> x) ys))
        = filter P (unique (filter (\<lambda>y. y \<noteq> x) ys))"
      using less[OF l] .
    have l2: "length ys < length xs" using Cons by simp
    have sw: "filter (\<lambda>y. y \<noteq> x) (filter P ys) = filter P (filter (\<lambda>y. y \<noteq> x) ys)"
      by (induction ys) auto
    show ?thesis
    proof (cases "P x")
      case True
      then show ?thesis using Cons ih sw by (simp add: unique_Cons)
    next
      case False
      have "unique (filter P ys) = filter P (unique ys)" using less[OF l2] .
      moreover have "filter P (filter (\<lambda>y. y \<noteq> x) ys) = filter P ys"
        using False by (induction ys) auto
      ultimately show ?thesis using Cons False ih by (simp add: unique_Cons)
    qed
  qed
qed

lemma unique_loop_fold: "unique_loop acc (a @ b) = unique_loop (unique_loop acc a) b"
  by (induction a arbitrary: acc) auto

lemma unique_append: "unique (a @ b) = unique a @ filter (\<lambda>x. x \<notin> set a) (unique b)"
proof -
  have "unique (a @ b) = unique_loop (unique a) b"
    by (simp add: unique_def unique_loop_fold)
  also have "\<dots> = unique a @ unique (filter (\<lambda>x. x \<notin> set (unique a)) b)"
    by (rule unique_loop_seen)
  finally show ?thesis by (simp add: set_unique unique_filter)
qed

lemma unique_unique_append: "unique (unique xs @ ys) = unique (xs @ ys)"
proof -
  have "unique (unique xs) = unique xs"
  proof (induction "length xs" arbitrary: xs rule: less_induct)
    case less
    show ?case
    proof (cases xs)
      case Nil
      then show ?thesis by (simp add: unique_Nil)
    next
      case (Cons x zs)
      have l: "length (filter (\<lambda>y. y \<noteq> x) zs) < length xs"
        using Cons by (simp add: le_imp_less_Suc)
      have "filter (\<lambda>y. y \<noteq> x) (unique (filter (\<lambda>y. y \<noteq> x) zs))
          = unique (filter (\<lambda>y. y \<noteq> x) zs)"
        by (simp add: unique_filter[symmetric])
      then show ?thesis using Cons less[OF l] by (simp add: unique_Cons)
    qed
  qed
  then show ?thesis by (simp add: unique_append set_unique)
qed

text \<open>
  C6. For every table of the configuration, in order, \<^verbatim>\<open>setup_triggers\<close> drops the
  trigger if it exists and creates it with the \<^verbatim>\<open>UPDATE OF\<close> column list
  \<open>unique (primary_keys @ columns)\<close> and with four arguments for the log procedure:
  the queue name, the encoded list of primary keys (without duplicates), the encoded
  column list (the same list as in \<^verbatim>\<open>UPDATE OF\<close>) and the version of the
  configuration, the MD5 digest of its serialisation. The column list has no duplicates,
  holds exactly the primary keys and the columns, and keeps the order in which they are
  first seen: the primary keys first, then the columns that are not primary keys, and in
  general the head of a list followed by the rest without that head.
\<close>

theorem setup_triggers_update_of_columns:
  "setup_triggers e name cfg =
     concat (map (\<lambda>tbl.
       [DropTriggerIfExists (get_trigger_name e name) (table_schema tbl) (table_name tbl),
        CreateTrigger
          \<lparr>trigger_name = get_trigger_name e name,
           trigger_schema = table_schema tbl,
           trigger_table = table_name tbl,
           update_of = unique (primary_keys tbl @ columns tbl),
           procedure_arguments =
             [get_queue_name e name,
              pickle_dumps e (unique (primary_keys tbl)),
              pickle_dumps e (unique (primary_keys tbl @ columns tbl)),
              md5_hexdigest e (serialize_to_string e cfg)]\<rparr>]) (tables cfg))
   \<and> distinct (unique (pkeys @ cols))
   \<and> set (unique (pkeys @ cols)) = set pkeys \<union> set cols
   \<and> unique (pkeys @ cols) = unique pkeys @ filter (\<lambda>c. c \<notin> set pkeys) (unique cols)
   \<and> unique (c # cols) = c # unique (filter (\<lambda>y. y \<noteq> c) cols)
   \<and> unique ([] :: string list) = []"
proof -
  have "setup_triggers e name cfg =
     concat (map (\<lambda>tbl.
       [DropTriggerIfExists (get_trigger_name e name) (table_schema tbl) (table_name tbl),
        CreateTrigger
          \<lparr>trigger_name = get_trigger_name e name,
           trigger_schema = table_schema tbl,
           trigger_table = table_name tbl,
           update_of = unique (primary_keys tbl @ columns tbl),
           procedure_arguments =
             [get_queue_name e name,
              pickle_dumps e (unique (primary_keys tbl)),
              pickle_dumps e (unique (primary_keys tbl @ columns tbl)),
              md5_hexdigest e (serialize_to_string e cfg)]\<rparr>]) (tables cfg))"
    by (simp add: setup_triggers_def create_trigger_def get_version_def Let_def
        unique_unique_append)
  moreover have "distinct (unique (pkeys @ cols))"
    by (rule distinct_unique)
  moreover have "set (unique (pkeys @ cols)) = set pkeys \<union> set cols"
    by (simp add: set_unique)
  moreover have "unique (pkeys @ cols) = unique pkeys @ filter (\<lambda>c. c \<notin> set pkeys) (unique cols)"
    by (rule unique_append)
  moreover have "unique (c # cols) = c # unique (filter (\<lambda>y. y \<noteq> c) cols)"
    by (rule unique_Cons)
  moreover have "unique ([] :: string list) = []"
    by (rule unique_Nil)
  ultimately show ?thesis by blast
qed

section \<open>Properties of the managed databases and of the creation of a set\<close>

text \<open>
  C10. Called with no DSN, \<^verbatim>\<open>get_managed_databases\<close> returns the empty mapping and
  leaves the world as it is, history included: no version check, no coordination-store
  transaction and no connection, whatever the flags are and whatever version the
  cluster has.
\<close>

theorem get_managed_databases_no_dsns:
  "get_managed_databases e w [] configure skip_inaccessible same_version = (Inr [], w)"
  by (simp add: get_managed_databases_def)

text \<open>
  A list with a repeated element has a first element that repeats an earlier one.
\<close>

lemma first_repeated:
  assumes "\<not> distinct xs"
  shows "\<exists>pre d post. xs = pre @ d # post \<and> distinct pre \<and> d \<in> set pre"
  using assms
proof (induction xs rule: rev_induct)
  case Nil
  then show ?case by simp
next
  case (snoc x xs)
  show ?case
  proof (cases "distinct xs")
    case True
    with snoc.prems have "x \<in> set xs" by simp
    with True have "xs @ [x] = xs @ x # [] \<and> distinct xs \<and> x \<in> set xs" by simp
    then show ?thesis by blast
  next
    case False
    then obtain pre d post where "xs = pre @ d # post" "distinct pre" "d \<in> set pre"
      using snoc.IH by blast
    then have "xs @ [x] = pre @ d # (post @ [x]) \<and> distinct pre \<and> d \<in> set pre" by simp
    then show ?thesis by blast
  qed
qed

lemma validate_databases_repeated:
  assumes "distinct pre" "set pre \<inter> dsns = {}" "d \<in> set pre \<union> dsns"
  shows "validate_databases dsns (pre @ d # post)
           = Inl (AssertionError (DuplicateDatabasesNotAllowed d))"
  using assms
proof (induction pre arbitrary: dsns)
  case Nil
  then show ?case by simp
next
  case (Cons x pre)
  have nx: "x \<notin> dsns" using Cons.prems(2) by simp
  have "validate_databases (insert x dsns) (pre @ d # post)
          = Inl (AssertionError (DuplicateDatabasesNotAllowed d))"
  proof (rule Cons.IH)
    show "distinct pre" using Cons.prems(1) by simp
    show "set pre \<inter> insert x dsns = {}" using Cons.prems(1,2) by auto
    show "d \<in> set pre \<union> insert x dsns" using Cons.prems(3) by auto
  qed
  then show ?case using nx by simp
qed

text \<open>
  C8, as the code has it. \<^verbatim>\<open>create_set\<close> with a configuration whose list of
  databases holds some DSN twice fails in \<^verbatim>\<open>validate_set_configuration\<close>, on the
  assertion \<^verbatim>\<open>duplicate databases not allowed\<close> that names the first DSN
  repeating an earlier one, before any database is contacted; the duplicate-node
  assertion of \<^verbatim>\<open>get_managed_databases\<close> is not reached. The world, that is the
  coordination store, every database and the history of actions, is unchanged.
\<close>

theorem create_set_rejects_repeated_dsn:
  assumes "\<not> distinct (databases cfg)"
  shows "\<exists>pre d post. databases cfg = pre @ d # post \<and> distinct pre \<and> d \<in> set pre
           \<and> create_set e w name cfg
               = (Inl (AssertionError (DuplicateDatabasesNotAllowed d)), w)"
proof -
  obtain pre d post where x: "databases cfg = pre @ d # post" "distinct pre" "d \<in> set pre"
    using first_repeated[OF assms] by blast
  have "validate_databases {} (databases cfg)
          = Inl (AssertionError (DuplicateDatabasesNotAllowed d))"
    unfolding x(1) by (rule validate_databases_repeated) (use x(2,3) in simp_all)
  then have "create_set e w name cfg
               = (Inl (AssertionError (DuplicateDatabasesNotAllowed d)), w)"
    using x(1) by (simp add: create_set_def validate_set_configuration_def)
  then show ?thesis using x by blast
qed

text \<open>
  C8, witness: the set of orders with the DSN \<open>d1\<close> given twice, on the example
  world.
\<close>

theorem create_set_rejects_repeated_dsn_witness:
  "create_set example_env example_world ''orders'' (orders\<lparr>databases := [''d1'', ''d1'']\<rparr>)
     = (Inl (AssertionError (DuplicateDatabasesNotAllowed ''d1'')), example_world)"
  using create_set_rejects_repeated_dsn
    [of "orders\<lparr>databases := [''d1'', ''d1'']\<rparr>" example_env example_world "''orders''"]
  by (simp add: create_set_def validate_set_configuration_def)

text \<open>
  C8, counterexample to the claim as stated: for the DSN \<open>d1\<close> given twice, the
  duplicate-node assertion is what \<^verbatim>\<open>get_managed_databases\<close> would raise on the two
  DSNs, naming the two connections, but \<^verbatim>\<open>create_set\<close> does not raise it: it fails
  earlier, on the assertion of the validation.
\<close>

theorem create_set_repeated_dsn_not_duplicate_node:
  "fst (get_managed_databases example_env example_world [''d1'', ''d1''] True False True)
     = Inl (AssertionError
         (FoundDuplicateNode \<lparr>conn_dsn = ''d1'', conn_db = 0\<rparr> \<lparr>conn_dsn = ''d1'', conn_db = 0\<rparr>))
   \<and> fst (create_set example_env example_world ''orders'' (orders\<lparr>databases := [''d1'', ''d1'']\<rparr>))
     \<noteq> Inl (AssertionError
         (FoundDuplicateNode \<lparr>conn_dsn = ''d1'', conn_db = 0\<rparr> \<lparr>conn_dsn = ''d1'', conn_db = 0\<rparr>))
   \<and> fst (create_set example_env example_world ''orders'' (orders\<lparr>databases := [''d1'', ''d1'']\<rparr>))
     = Inl (AssertionError (DuplicateDatabasesNotAllowed ''d1''))"
  by (simp add: create_set_def validate_set_configuration_def get_managed_databases_def
      check_version_def record_event_def example_world_def example_env_def orders_def
      identify_def add_node_def remember_def configured_database_def
      get_node_identifier_def get_configuration_value_def abandon_def Let_def)

section \<open>Properties of the commit phase\<close>

lemma commit_all_history:
  "history (snd (commit_all ts w)) =
     history w
     @ map PostgresCommitted (takeWhile (\<lambda>c. commit_ok w (conn_db c)) (map txn_connection ts))
     @ map PostgresCommitFailed
         (take 1 (dropWhile (\<lambda>c. commit_ok w (conn_db c)) (map txn_connection ts)))"
  by (induction ts arbitrary: w) (simp_all add: record_event_def Let_def)

lemma commit_all_store: "store (snd (commit_all ts w)) = store w"
  by (induction ts arbitrary: w) (simp_all add: record_event_def Let_def)

lemma commit_all_result:
  "fst (commit_all ts w) = Inr () \<longleftrightarrow> list_all (\<lambda>t. commit_ok w (conn_db (txn_connection t))) ts"
  by (induction ts arbitrary: w) (simp_all add: record_event_def Let_def)

lemma rollback_all_history:
  "history (rollback_all ts w) = history w @ map (\<lambda>t. PostgresRolledBack (txn_connection t)) ts"
  by (induction ts arbitrary: w) (simp_all add: record_event_def)

lemma rollback_all_state: "dbs (rollback_all ts w) = dbs w \<and> store (rollback_all ts w) = store w"
  by (induction ts arbitrary: w) (simp_all add: record_event_def)

text \<open>
  C1, as the code has it. In the commit phase
  \<^verbatim>\<open>with managed(transactions): commit(ztransaction)\<close> the coordination-store
  transaction is committed first, inside the scope. When that commit fails the call
  fails, every Postgres transaction is rolled back and neither a database nor the store
  has changed. When it succeeds the store holds the new data and the Postgres
  transactions are committed after it, in order, up to the first one that fails; the
  call succeeds exactly when all of them commit. So the partial-failure window is a
  Postgres commit that fails after the store commit succeeded.
\<close>

theorem commit_phase_store_first:
  "(case apply_operations zt (store w) of
      None \<Rightarrow>
        fst (commit_phase ts zt w) = Inl StoreError \<and>
        history (snd (commit_phase ts zt w)) =
          history w @ StoreCommitFailed # map (\<lambda>t. PostgresRolledBack (txn_connection t)) ts \<and>
        dbs (snd (commit_phase ts zt w)) = dbs w \<and>
        store (snd (commit_phase ts zt w)) = store w
    | Some s' \<Rightarrow>
        history (snd (commit_phase ts zt w)) =
          history w @ StoreCommitted
            # map PostgresCommitted
                (takeWhile (\<lambda>c. commit_ok w (conn_db c)) (map txn_connection ts))
            @ map PostgresCommitFailed
                (take 1 (dropWhile (\<lambda>c. commit_ok w (conn_db c)) (map txn_connection ts))) \<and>
        store (snd (commit_phase ts zt w)) = s' \<and>
        (fst (commit_phase ts zt w) = Inr () \<longleftrightarrow>
           list_all (\<lambda>t. commit_ok w (conn_db (txn_connection t))) ts))"
proof (cases "apply_operations zt (store w)")
  case None
  then show ?thesis
    by (simp add: commit_phase_def managed_def commit_def rollback_all_history
        rollback_all_state record_event_def)
next
  case (Some s')
  then show ?thesis
    by (simp add: commit_phase_def managed_def commit_def commit_all_history
        commit_all_store commit_all_result record_event_def)
qed

text \<open>
  C1, witness: one open transaction and the staged creation of a set, on the example
  world. The store commit is followed by the Postgres commit.
\<close>

theorem commit_phase_store_first_witness:
  "fst (commit_phase [example_transaction] [CreateSet ''orders'' orders] example_world) = Inr ()
   \<and> history (snd (commit_phase [example_transaction] [CreateSet ''orders'' orders] example_world))
       = [StoreCommitted, PostgresCommitted \<lparr>conn_dsn = ''d1'', conn_db = 0\<rparr>]
   \<and> sets (store (snd (commit_phase [example_transaction] [CreateSet ''orders'' orders] example_world)))
       = [(''orders'', orders)]"
  using commit_phase_store_first[where zt = "[CreateSet ''orders'' orders]" and w = example_world and ts = "[example_transaction]"]
  by (simp add: example_world_def example_transaction_def Transaction_def)

text \<open>
  C1, counterexample to the claim as stated: \<^verbatim>\<open>create_set\<close> of a set on one
  configured database succeeds, and the history of its actions ends with the
  store commit followed by the Postgres commit; the store commit is not the last
  commit.
\<close>

theorem create_set_commits_store_first:
  "fst (create_set example_env example_world ''orders'' orders) = Inr ()
   \<and> history (snd (create_set example_env example_world ''orders'' orders)) =
      [VersionChecked, StoreTransactionStarted, Connected ''d1'',
       ProbeCommitted \<lparr>conn_dsn = ''d1'', conn_db = 0\<rparr>,
       VersionChecked, StoreTransactionStarted,
       StoreCommitted, PostgresCommitted \<lparr>conn_dsn = ''d1'', conn_db = 0\<rparr>]
   \<and> last (history (snd (create_set example_env example_world ''orders'' orders)))
       \<noteq> StoreCommitted"
  by (simp add: create_set_def validate_set_configuration_def get_managed_databases_def
     check_version_def record_event_def example_world_def example_env_def orders_def
     identify_def add_node_def remember_def commit_phase_def managed_def commit_def
     configure_set_def setup_triggers_def create_trigger_def unique_def get_version_def
     Transaction_def configured_database_def get_node_identifier_def get_configuration_value_def
     Let_def)

section \<open>Properties of the managed databases\<close>

text \<open>
  On a node that is already configured, the stored version is compared with the running
  version whatever \<^verbatim>\<open>configure\<close> is; \<^verbatim>\<open>same_version\<close> is not even an
  argument of this part of the loop.
\<close>

lemma identify_compares_versions:
  assumes "get_node_identifier (dbs (acq_world s) (conn_db c)) = Inr (Some n)"
    and "get_configuration_value (dbs (acq_world s) (conn_db c)) ''version'' = Inr (Some v)"
    and "v \<noteq> local_version e"
  shows "fst (identify e configure c s)
           = Inl (AssertionError (VersionsDoNotMatch (local_version e) v))"
  using assms by (simp add: identify_def Let_def)

text \<open>
  C2, the code at the failing input: the DSN \<open>d2\<close> reaches a node configured at
  version 0.1 while version 0.2 runs. With \<^verbatim>\<open>configure=False\<close> and
  \<^verbatim>\<open>same_version=False\<close>, as \<^verbatim>\<open>upgrade_cluster\<close> calls it,
  \<^verbatim>\<open>get_managed_databases\<close> fails on the assertion
  \<^verbatim>\<open>local and node versions do not match\<close>.
\<close>

theorem get_managed_databases_older_node_rejected:
  "fst (get_managed_databases example_env example_world [''d2''] False False False) =
     Inl (AssertionError (VersionsDoNotMatch ''0.2'' ''0.1''))"
  by (simp add: get_managed_databases_def zookeeper_transaction_def
     record_event_def example_world_def example_env_def
     identify_def add_node_def remember_def 
     configured_database_def get_node_identifier_def get_configuration_value_def
     Let_def)

lemma identify_preserves:
  assumes "identify e configure c s = (r, s1)"
  shows "nodes s1 = nodes s \<and> resolve (acq_world s1) = resolve (acq_world s)
         \<and> dbs (acq_world s1) = dbs (acq_world s)"
  using assms
  by (auto simp: identify_def Let_def remember_def record_event_def
      split: sum.splits option.splits if_splits prod.splits)

lemma add_node_appends:
  assumes "add_node n c s = (Inr u, s2)"
  shows "nodes s2 = nodes s @ [(n, c)] \<and> acq_world s2 = acq_world s
         \<and> transactions s2 = transactions s \<and> n \<notin> fst ` set (nodes s)"
  using assms
  by (auto simp: add_node_def map_of_eq_None_iff[symmetric] simp del: map_of_eq_None_iff split: option.splits)

lemma connect_all_entries:
  assumes "connect_all e configure skip ds s = (Inr u, s')"
  shows "(distinct (map fst (nodes s)) \<longrightarrow> distinct (map fst (nodes s')))
       \<and> map (\<lambda>(n, c). conn_dsn c) (nodes s')
          = map (\<lambda>(n, c). conn_dsn c) (nodes s) @ filter (\<lambda>d. resolve (acq_world s) d \<noteq> None) ds"
  using assms
proof (induction ds arbitrary: s)
  case Nil
  then show ?case by simp
next
  case (Cons d ds)
  show ?case
  proof (cases "resolve (acq_world s) d")
    case None
    with Cons.prems have sk: "skip" and run: "connect_all e configure skip ds (remember (Skipped d) s) = (Inr u, s')"
      by (auto split: if_splits)
    from Cons.IH[OF run] None show ?thesis
      by (simp add: remember_def record_event_def)
  next
    case (Some i)
    let ?c = "\<lparr>conn_dsn = d, conn_db = i\<rparr>"
    obtain r s1 where id: "identify e configure ?c (remember (Connected d) s) = (r, s1)"
      by (cases "identify e configure ?c (remember (Connected d) s)")
    with Cons.prems Some obtain n where r: "r = Inr n"
      by (cases r) auto
    obtain r2 s2 where an: "add_node n ?c s1 = (r2, s2)"
      by (cases "add_node n ?c s1")
    with Cons.prems Some id r have r2: "r2 = Inr ()"
      by (cases r2) auto
    from Cons.prems Some id r an r2
    have run: "connect_all e configure skip ds s2 = (Inr u, s')" by simp
    have p1: "nodes s1 = nodes s" "resolve (acq_world s1) = resolve (acq_world s)"
      using identify_preserves[OF id] by (simp_all add: remember_def record_event_def)
    have p2: "nodes s2 = nodes s1 @ [(n, ?c)]" "acq_world s2 = acq_world s1"
      "n \<notin> fst ` set (nodes s1)"
      using add_node_appends[OF an[unfolded r2]] by simp_all
    from Cons.IH[OF run] p1 p2 Some show ?thesis
      by auto
  qed
qed

lemma identify_probed:
  assumes "probe_succeeds e w d" "resolve w d = Some i"
    "dbs (acq_world s) = dbs w"
  shows "identify e configure \<lparr>conn_dsn = d, conn_db = i\<rparr> s =
           (Inr (node_of w d), remember (ProbeCommitted \<lparr>conn_dsn = d, conn_db = i\<rparr>) s)"
  using assms
  by (auto simp: identify_def probe_succeeds_def node_of_def Let_def
      split: option.splits sum.splits)

lemma connect_all_probed:
  assumes "\<forall>d \<in> set ds. probe_succeeds e w d"
    "resolve (acq_world s) = resolve w" "dbs (acq_world s) = dbs w"
  shows "(\<exists>s'. connect_all e configure skip ds s = (Inr (), s')
            \<and> nodes s' = nodes s @ map (entry w) ds
            \<and> transactions s' = transactions s
            \<and> distinct (map (node_of w) ds)
            \<and> (\<forall>d \<in> set ds. map_of (nodes s) (node_of w d) = None))
       \<or> (\<exists>pre d post b s'. ds = pre @ d # post
            \<and> connect_all e configure skip ds s =
                (Inl (AssertionError (FoundDuplicateNode (connection_of w d) b)), s')
            \<and> map_of (nodes s @ map (entry w) pre) (node_of w d) = Some b)"
  using assms
proof (induction ds arbitrary: s)
  case Nil
  then show ?case by simp
next
  case (Cons d ds)
  from Cons.prems obtain i where i: "resolve w d = Some i"
    by (auto simp: probe_succeeds_def split: option.splits)
  let ?c = "\<lparr>conn_dsn = d, conn_db = i\<rparr>"
  have c: "connection_of w d = ?c" using i by (simp add: connection_of_def)
  let ?s0 = "remember (Connected d) s"
  let ?s1 = "remember (ProbeCommitted ?c) ?s0"
  have id: "identify e configure ?c ?s0 = (Inr (node_of w d), ?s1)"
    using Cons.prems i by (intro identify_probed) (simp_all add: remember_def record_event_def)
  show ?case
  proof (cases "map_of (nodes s) (node_of w d)")
    case (Some b)
    have "connect_all e configure skip (d # ds) s =
        (Inl (AssertionError (FoundDuplicateNode ?c b)), ?s1)"
      using i id Some Cons.prems(2)
      by (simp add: add_node_def remember_def)
    then have "d # ds = [] @ d # ds
       \<and> connect_all e configure skip (d # ds) s =
            (Inl (AssertionError (FoundDuplicateNode (connection_of w d) b)), ?s1)
       \<and> map_of (nodes s @ map (entry w) []) (node_of w d) = Some b"
      using Some c by simp
    then show ?thesis by blast
  next
    case None
    let ?s2 = "?s1\<lparr>nodes := nodes s @ [(node_of w d, ?c)]\<rparr>"
    have step: "connect_all e configure skip (d # ds) s = connect_all e configure skip ds ?s2"
      using i id None Cons.prems(2)
      by (simp add: add_node_def remember_def)
    have pre: "\<forall>d \<in> set ds. probe_succeeds e w d"
      "resolve (acq_world ?s2) = resolve w" "dbs (acq_world ?s2) = dbs w"
      using Cons.prems by (simp_all add: remember_def record_event_def)
    have e: "nodes ?s2 = nodes s @ [entry w d]" "transactions ?s2 = transactions s"
      using c by (simp_all add: entry_def remember_def)
    from Cons.IH[OF pre]
    show ?thesis
    proof (elim disjE exE conjE)
      fix s'
      assume a: "connect_all e configure skip ds ?s2 = (Inr (), s')"
        "nodes s' = nodes ?s2 @ map (entry w) ds" "transactions s' = transactions ?s2"
        "distinct (map (node_of w) ds)"
        "\<forall>d' \<in> set ds. map_of (nodes ?s2) (node_of w d') = None"
      have k: "\<forall>d' \<in> set ds. node_of w d' \<noteq> node_of w d \<and> map_of (nodes s) (node_of w d') = None"
      proof
        fix d' assume "d' \<in> set ds"
        with a(5) have "map_of (nodes s @ [entry w d]) (node_of w d') = None"
          using e by simp
        then show "node_of w d' \<noteq> node_of w d \<and> map_of (nodes s) (node_of w d') = None"
          by (auto simp: entry_def map_add_def simp del: map_of_eq_None_iff
              split: option.splits if_splits)
      qed
      then have "node_of w d \<notin> set (map (node_of w) ds)" by auto
      then show ?thesis using a step e k None by auto
    next
      fix pre d' post b s'
      assume a: "ds = pre @ d' # post"
        "connect_all e configure skip ds ?s2 =
           (Inl (AssertionError (FoundDuplicateNode (connection_of w d') b)), s')"
        "map_of (nodes ?s2 @ map (entry w) pre) (node_of w d') = Some b"
      have "d # ds = (d # pre) @ d' # post
        \<and> connect_all e configure skip (d # ds) s =
           (Inl (AssertionError (FoundDuplicateNode (connection_of w d') b)), s')
        \<and> map_of (nodes s @ map (entry w) (d # pre)) (node_of w d') = Some b"
        using a step e by simp
      then show ?thesis by blast
    qed
  qed
qed

lemma start_transaction_preserves:
  assumes "(if same_version then check_version e w else zookeeper_transaction w) = (r, w1)"
  shows "resolve w1 = resolve w \<and> dbs w1 = dbs w"
  using assms
  by (auto simp: check_version_def zookeeper_transaction_def record_event_def Let_def
      split: if_splits option.splits)

lemma get_managed_databases_entries:
  assumes "get_managed_databases e w dsns configure skip same_version = (Inr ns, w')"
  shows "distinct (map fst ns)
       \<and> map (\<lambda>(n, c). conn_dsn c) ns = filter (\<lambda>d. resolve w d \<noteq> None) dsns"
proof (cases "dsns = []")
  case True
  with assms show ?thesis by (simp add: get_managed_databases_def)
next
  case False
  obtain r w1 where st: "(if same_version then check_version e w else zookeeper_transaction w) = (r, w1)"
    by (cases "if same_version then check_version e w else zookeeper_transaction w")
  with assms False obtain zt where r: "r = Inr zt"
    by (cases r) (auto simp: get_managed_databases_def)
  let ?s0 = "\<lparr>acq_world = w1, nodes = [], transactions = []\<rparr>"
  obtain r2 s where ca: "connect_all e configure skip dsns ?s0 = (r2, s)"
    by (cases "connect_all e configure skip dsns ?s0")
  with assms False st r have r2: "r2 = Inr ()"
    by (cases r2) (auto simp: get_managed_databases_def)
  have ns: "ns = nodes s"
    using assms False st r ca r2
    by (auto simp: get_managed_databases_def split: if_splits prod.splits sum.splits)
  from connect_all_entries[OF ca[unfolded r2]] start_transaction_preserves[OF st]
  show ?thesis using ns by simp
qed

lemma map_of_entries:
  assumes "map_of (map (entry w) pre) k = Some b"
  shows "\<exists>d' \<in> set pre. node_of w d' = k \<and> b = connection_of w d'"
  using assms by (induction pre) (auto simp: entry_def split: if_splits)

lemma get_managed_databases_probed:
  assumes "\<forall>d \<in> set dsns. probe_succeeds e w d"
    and "same_version \<longrightarrow> cluster_version (store w) = Some (local_version e)"
  shows "(\<exists>w'. get_managed_databases e w dsns configure skip same_version =
                  (Inr (map (entry w) dsns), w')
            \<and> distinct (map (node_of w) dsns)
            \<and> length dsns = card (node_of w ` set dsns))
       \<or> (\<exists>pre d post d' w'. dsns = pre @ d # post \<and> d' \<in> set pre
            \<and> node_of w d' = node_of w d
            \<and> get_managed_databases e w dsns configure skip same_version =
                (Inl (AssertionError
                   (FoundDuplicateNode (connection_of w d) (connection_of w d'))), w'))"
proof (cases "dsns = []")
  case True
  then show ?thesis by (simp add: get_managed_databases_def)
next
  case False
  obtain zt w1 where st: "(if same_version then check_version e w else zookeeper_transaction w) = (Inr zt, w1)"
  proof (cases same_version)
    case True
    with assms(2) have "check_version e w =
        (Inr [CheckCluster (local_version e)],
         record_event StoreTransactionStarted (record_event VersionChecked w))"
      by (simp add: check_version_def record_event_def Let_def)
    with True that show ?thesis by simp
  next
    case False
    with that show ?thesis by (simp add: zookeeper_transaction_def)
  qed
  have inv: "resolve w1 = resolve w" "dbs w1 = dbs w"
    using start_transaction_preserves[OF st] by simp_all
  let ?s0 = "\<lparr>acq_world = w1, nodes = [], transactions = []\<rparr>"
  have "(\<exists>s'. connect_all e configure skip dsns ?s0 = (Inr (), s')
            \<and> nodes s' = nodes ?s0 @ map (entry w) dsns
            \<and> transactions s' = transactions ?s0
            \<and> distinct (map (node_of w) dsns)
            \<and> (\<forall>d \<in> set dsns. map_of (nodes ?s0) (node_of w d) = None))
       \<or> (\<exists>pre d post b s'. dsns = pre @ d # post
            \<and> connect_all e configure skip dsns ?s0 =
                (Inl (AssertionError (FoundDuplicateNode (connection_of w d) b)), s')
            \<and> map_of (nodes ?s0 @ map (entry w) pre) (node_of w d) = Some b)"
    using assms(1) inv by (intro connect_all_probed) simp_all
  then show ?thesis
  proof (elim disjE exE conjE)
    fix s'
    assume a: "connect_all e configure skip dsns ?s0 = (Inr (), s')"
      "nodes s' = nodes ?s0 @ map (entry w) dsns" "transactions s' = transactions ?s0"
      "distinct (map (node_of w) dsns)"
    have run: "get_managed_databases e w dsns configure skip same_version =
        (Inr (map (entry w) dsns), acq_world s')"
      using False st a by (simp add: get_managed_databases_def)
    have "card (node_of w ` set dsns) = length dsns"
      using distinct_card[OF a(4)] by simp
    then show ?thesis using run a(4) by auto
  next
    fix pre d post b s'
    assume a: "dsns = pre @ d # post"
      "connect_all e configure skip dsns ?s0 =
         (Inl (AssertionError (FoundDuplicateNode (connection_of w d) b)), s')"
      "map_of (nodes ?s0 @ map (entry w) pre) (node_of w d) = Some b"
    from a(3) obtain d' where d': "d' \<in> set pre" "node_of w d' = node_of w d" "b = connection_of w d'"
      using map_of_entries[of w pre "node_of w d" b] by auto
    have "get_managed_databases e w dsns configure skip same_version =
        (Inl (AssertionError (FoundDuplicateNode (connection_of w d) (connection_of w d'))), abandon w1 s')"
      using False st a(2) d' by (simp add: get_managed_databases_def)
    then show ?thesis using a(1) d' by blast
  qed
qed

text \<open>
  C3. Whenever \<^verbatim>\<open>get_managed_databases\<close> returns a mapping, its keys are distinct
  and it has one entry for every input DSN that could be connected to, in order: two
  DSNs are never folded into one entry. When moreover every DSN reaches a configured
  node of the running version (and the version check of the cluster passes, if asked
  for), the call either returns one entry per DSN, the node identifiers of the DSNs
  being distinct, so that the mapping has as many entries as there are distinct node
  identifiers, or it fails on the assertion \<^verbatim>\<open>found duplicate node\<close>, which names
  the connection of a DSN and the connection of an earlier DSN with the same node
  identifier.
\<close>

theorem get_managed_databases_distinct_nodes:
  "(\<forall>ns w'. get_managed_databases e w dsns configure skip same_version = (Inr ns, w') \<longrightarrow>
       distinct (map fst ns)
       \<and> map (\<lambda>(n, c). conn_dsn c) ns = filter (\<lambda>d. resolve w d \<noteq> None) dsns)
   \<and> ((\<forall>d \<in> set dsns. probe_succeeds e w d)
        \<and> (same_version \<longrightarrow> cluster_version (store w) = Some (local_version e)) \<longrightarrow>
       (\<exists>w'. get_managed_databases e w dsns configure skip same_version =
                  (Inr (map (entry w) dsns), w')
            \<and> distinct (map (node_of w) dsns)
            \<and> length dsns = card (node_of w ` set dsns))
       \<or> (\<exists>pre d post d' w'. dsns = pre @ d # post \<and> d' \<in> set pre
            \<and> node_of w d' = node_of w d
            \<and> get_managed_databases e w dsns configure skip same_version =
                (Inl (AssertionError
                   (FoundDuplicateNode (connection_of w d) (connection_of w d'))), w')))"
proof (intro conjI allI impI)
  fix ns w'
  assume "get_managed_databases e w dsns configure skip same_version = (Inr ns, w')"
  then show "distinct (map fst ns)"
    and "map (\<lambda>(n, c). conn_dsn c) ns = filter (\<lambda>d. resolve w d \<noteq> None) dsns"
    using get_managed_databases_entries by blast+
next
  assume "(\<forall>d \<in> set dsns. probe_succeeds e w d)
        \<and> (same_version \<longrightarrow> cluster_version (store w) = Some (local_version e))"
  then show "(\<exists>w'. get_managed_databases e w dsns configure skip same_version =
                  (Inr (map (entry w) dsns), w')
            \<and> distinct (map (node_of w) dsns)
            \<and> length dsns = card (node_of w ` set dsns))
       \<or> (\<exists>pre d post d' w'. dsns = pre @ d # post \<and> d' \<in> set pre
            \<and> node_of w d' = node_of w d
            \<and> get_managed_databases e w dsns configure skip same_version =
                (Inl (AssertionError
                   (FoundDuplicateNode (connection_of w d) (connection_of w d'))), w'))"
    using get_managed_databases_probed[of dsns e w same_version configure skip] by blast
qed

text \<open>
  C3, witness: on the example world the DSNs \<open>d1\<close> and \<open>d4\<close> reach two
  configured nodes, and the mapping returned has the two entries.
\<close>

theorem get_managed_databases_distinct_nodes_witness:
  "probe_succeeds example_env example_world ''d1''
   \<and> probe_succeeds example_env example_world ''d4''
   \<and> cluster_version (store example_world) = Some (local_version example_env)
   \<and> fst (get_managed_databases example_env example_world [''d1'', ''d4''] True False True) =
       Inr [(''n1'', \<lparr>conn_dsn = ''d1'', conn_db = 0\<rparr>),
            (''n4'', \<lparr>conn_dsn = ''d4'', conn_db = 3\<rparr>)]
   \<and> card (node_of example_world ` set [''d1'', ''d4'']) = 2"
  using get_managed_databases_distinct_nodes
    [of example_env example_world "[''d1'', ''d4'']" True False True]
  by (simp add: get_managed_databases_def check_version_def record_event_def
      example_world_def example_env_def identify_def add_node_def remember_def
      configured_database_def get_node_identifier_def get_configuration_value_def
      probe_succeeds_def node_of_def entry_def connection_of_def Let_def)

section \<open>Properties of the batched iterator\<close>

lemmas stream_defs = validate_transaction_state_def retried_batch_def crashed_batch_def msg_def b1_def
  in_transaction_def require_batch_id_not_advanced_if_same_node_def
  require_batch_id_advanced_if_same_node_def batched_def batch_key_def mutations_of_def

text \<open>
  C5, the code at the failing input. A publisher begins batch 1, publishes \<open>m1\<close>,
  rolls the batch back, and publishes the batch again: Begin, \<open>m1\<close>, \<open>m2\<close>,
  Commit. The stream is accepted by the transaction validator. All seven messages have
  the key (publisher, batch identifier) of batch 1, so \<^verbatim>\<open>batched\<close> yields a single
  group; its iterator yields \<open>m1\<close> and raises TransactionCancelled at the Rollback,
  and the committed mutations \<open>m1\<close>, \<open>m2\<close> that follow in the group are never
  yielded.
\<close>

theorem batched_drops_retried_batch:
  "\<exists>validated. validate_transaction_state retried_batch = Inr validated
     \<and> map snd validated = retried_batch
     \<and> batched validated = [(b1, [''m1''], TransactionCancelled)]
     \<and> mutations_of retried_batch = [''m1'', ''m1'', ''m2'']
     \<and> concat (map (\<lambda>(b, mutations, e). mutations) (batched validated))
         \<noteq> mutations_of retried_batch"
  by (simp add: stream_defs)

text \<open>
  The scenario of a publisher that stops in the middle of a batch: one group, whose
  iterator yields \<open>m1\<close> and raises TransactionAborted.
\<close>

lemma batched_crashed_batch:
  "\<exists>validated. validate_transaction_state crashed_batch = Inr validated
     \<and> batched validated = [(b1, [''m1''], TransactionAborted)]"
  by (simp add: stream_defs)

text \<open>
  The validator accepts a batch begun by another publisher after a commit, with the
  same batch identifier.
\<close>

lemma validator_accepts_publisher_change:
  "\<exists>validated. validate_transaction_state publisher_changed = Inr validated
     \<and> map snd validated = publisher_changed"
  by (simp add: validate_transaction_state_def publisher_changed_def msg_def b1_def
      in_transaction_def require_batch_id_advanced_if_same_node_def)

section \<open>Properties of the consumer\<close>

text \<open>
  C7, the code at the failing input. A consumer is started while another process
  holds the lease, and is asked to stop. However many ticks pass, the consumer is still
  acquiring the lease, with the stop request set and not looked at.
\<close>

theorem consumer_stop_does_not_interrupt_acquire:
  "phase (consumer_run (replicate n lease_held_elsewhere) (consumer_stop_async new_consumer))
     = AcquiringLease
   \<and> consumer_stop_requested
       (consumer_run (replicate n lease_held_elsewhere) (consumer_stop_async new_consumer))"
proof -
  have step: "consumer_tick lease_held_elsewhere (consumer_stop_async new_consumer)
      = consumer_stop_async new_consumer"
    by (simp add: consumer_tick_def lease_held_elsewhere_def consumer_stop_async_def
        new_consumer_def)
  have "consumer_run (replicate n lease_held_elsewhere) (consumer_stop_async new_consumer)
      = consumer_stop_async new_consumer"
    by (induction n) (simp_all add: consumer_run_def step)
  then show ?thesis
    by (simp add: consumer_stop_async_def new_consumer_def)
qed

text \<open>In the main loop a stop request ends the consumer at the next tick.\<close>

lemma consumer_stop_in_main_loop:
  "phase c = Running \<Longrightarrow> phase (consumer_tick t (consumer_stop_async c)) = Stopped"
  by (simp add: consumer_tick_def consumer_stop_async_def)

section \<open>Properties of the coordinator\<close>



















text \<open>
  A consumer that is not ready at once is stored and waited for; the thread goes on
  when it is ready, completes the future and takes the commands queued meanwhile.
\<close>

lemma coordinator_resumes_when_ready:
  "coordinator_phase (run_actions [SubscribeAsync ''orders'' orders, Iteration [] []]
      new_coordinator) = WaitingForReady
   \<and> map fst (consumers (run_actions [SubscribeAsync ''orders'' orders, Iteration [] []]
      new_coordinator)) = [''orders'']
   \<and> futures (run_actions [SubscribeAsync ''orders'' orders, Iteration [] []]
      new_coordinator) = [Pending]
   \<and> futures (run_actions
      [SubscribeAsync ''orders'' orders, Iteration [] [], UnsubscribeAsync ''items'',
       Iteration [''orders''] []] new_coordinator) = [Result ''orders'', KeyError ''items'']
   \<and> coordinator_phase (run_actions
      [SubscribeAsync ''orders'' orders, Iteration [] [], UnsubscribeAsync ''items'',
       Iteration [''orders''] []] new_coordinator) = Looping"
  by (simp add: run_actions_def enqueue_def new_coordinator_def iteration_def invoke_def
      supervise_def)

end
